theory Spec2Isabelle
  imports Complex_Main
begin

section \<open>The model manager of the similarity service\<close>

text \<open>
  This theory embeds \<^verbatim>\<open>app/models/ai_models.py\<close>: the class
  \<^verbatim>\<open>OptimizedAIModelManager\<close>, which loads a sentence-embedding model lazily and
  scores the similarity of two texts.

  The embedding model, \<^verbatim>\<open>os.makedirs\<close> and the thread pool are libraries the
  class calls. They are a parameter of the embedding (the record \<open>backend\<close>): each of
  their operations is a function of the history of calls made so far, so a backend may
  fail at one attempt and succeed at the next. Exceptions are values: a function that may
  raise returns \<open>exn + 'a\<close>, with \<open>Inl\<close> for the exception. Attribute updates are
  explicit state passing, and an update made before an exception is raised stays in the
  returned state, as in Python.

  Embedding vectors are lists of reals: the entries that numpy holds as floating-point
  numbers are read as the real numbers they denote, and \<^verbatim>\<open>np.dot\<close> is the exact sum
  of products. Rounding, overflow and the special values of floating-point arithmetic are
  outside the embedding, so nothing is stated here that depends on them: neither the range
  of the score nor its distance from 1. Log messages are not modelled.
\<close>

subsection \<open>Data\<close>

text \<open>
  The exceptions that occur: those of list indexing, of \<^verbatim>\<open>np.dot\<close>, of an attribute
  access on \<^verbatim>\<open>None\<close>, of a thread pool that was shut down, and whatever a backend
  raises. All of them are instances of Python's \<^verbatim>\<open>Exception\<close>, which is what the two
  handlers of the class catch.
\<close>

datatype exn = IndexError | ValueError | AttributeError | RuntimeError | Raised string

text \<open>A handle is the identity of one \<^verbatim>\<open>SentenceTransformer\<close> object.\<close>

type_synonym handle = nat

type_synonym vec = "real list"

text \<open>
  The object \<^verbatim>\<open>settings\<close> of \<^verbatim>\<open>app/core/config.py\<close>, with the two fields that the
  manager reads. The module builds it when it is imported, from the environment.
\<close>

record Settings =
  model_name :: string
  model_cache_dir :: string

definition default_settings :: Settings where
  "default_settings = \<lparr>model_name = ''all-MiniLM-L6-v2'', model_cache_dir = ''./models''\<rparr>"

text \<open>
  Every call to a collaborator is recorded with its outcome. The list of events is a
  history variable: the source has no such field, the embedding keeps it to say which
  calls were made.
\<close>

datatype event =
    Import_settings "exn + Settings"
  | Makedirs string "exn option"
  | Construct string string "exn + handle"
  | Eval handle "exn option"
  | Encode handle "string list" "exn + vec list"

record backend =
  import_settings :: "event list \<Rightarrow> exn + Settings"
  os_makedirs :: "event list \<Rightarrow> string \<Rightarrow> exn option"
  SentenceTransformer :: "event list \<Rightarrow> string \<Rightarrow> string \<Rightarrow> exn + handle"
  model_eval :: "event list \<Rightarrow> handle \<Rightarrow> exn option"
  model_encode :: "event list \<Rightarrow> handle \<Rightarrow> string list \<Rightarrow> exn + vec list"

text \<open>\<^verbatim>\<open>ThreadPoolExecutor(max_workers=2, thread_name_prefix="ai_model")\<close>\<close>

record executor =
  max_workers :: nat
  thread_name_prefix :: string
  shut_down :: bool

text \<open>
  The attributes of the one manager object: \<^verbatim>\<open>_model\<close>, \<^verbatim>\<open>_model_loaded\<close>,
  \<^verbatim>\<open>_executor\<close> (Isabelle names cannot start with an underscore), whether it has
  the attribute \<^verbatim>\<open>_initialized\<close>, and the history.
\<close>

record manager =
  model :: "handle option"
  model_loaded :: bool
  executor :: "executor option"
  initialized :: bool
  events :: "event list"

text \<open>The class attributes, before \<^verbatim>\<open>__init__\<close> has run.\<close>

definition class_attributes :: manager where
  "class_attributes =
     \<lparr>model = None, model_loaded = False, executor = None, initialized = False, events = []\<rparr>"

text \<open>\<^verbatim>\<open>__init__\<close>: at its first run on the object it creates the thread pool.\<close>

definition init :: "manager \<Rightarrow> manager" where
  "init s =
     (if initialized s then s
      else s\<lparr>initialized := True,
             executor := Some \<lparr>max_workers = 2, thread_name_prefix = ''ai_model'',
                               shut_down = False\<rparr>\<rparr>)"

text \<open>The global instance \<^verbatim>\<open>ai_model_manager\<close>.\<close>

definition ai_model_manager :: manager where
  "ai_model_manager = init class_attributes"

definition record_event :: "event \<Rightarrow> manager \<Rightarrow> manager" where
  "record_event ev s = s\<lparr>events := events s @ [ev]\<rparr>"

subsection \<open>Loading the model\<close>

definition is_ready :: "manager \<Rightarrow> bool" where
  "is_ready s \<longleftrightarrow> model_loaded s \<and> model s \<noteq> None"

text \<open>
  The handler of \<^verbatim>\<open>_load_model_sync\<close>: it clears the flag and raises the exception
  again. It does not touch \<^verbatim>\<open>_model\<close>.
\<close>

definition load_failed :: "exn \<Rightarrow> manager \<Rightarrow> (exn + handle option) \<times> manager" where
  "load_failed e s = (Inl e, s\<lparr>model_loaded := False\<rparr>)"

text \<open>
  The body of the \<^verbatim>\<open>try\<close> block of \<^verbatim>\<open>_load_model_sync\<close>: import the settings
  (the import runs \<^verbatim>\<open>Settings()\<close> and can raise), create the cache directory, construct
  the model and store it in \<^verbatim>\<open>_model\<close>, switch it to inference mode, and only then set
  \<^verbatim>\<open>_model_loaded\<close>. An exception at any of the four calls goes to the handler.
\<close>

definition load_attempt :: "backend \<Rightarrow> manager \<Rightarrow> (exn + handle option) \<times> manager" where
  "load_attempt bk s =
     (let r0 = import_settings bk (events s);
          s0 = record_event (Import_settings r0) s
      in case r0 of
           Inl e \<Rightarrow> load_failed e s0
         | Inr settings \<Rightarrow>
             (let dir = model_cache_dir settings;
                  name = model_name settings;
                  r1 = os_makedirs bk (events s0) dir;
                  s1 = record_event (Makedirs dir r1) s0
              in case r1 of
                   Some e \<Rightarrow> load_failed e s1
                 | None \<Rightarrow>
                     (let r2 = SentenceTransformer bk (events s1) name dir;
                          s2 = record_event (Construct name dir r2) s1
                      in case r2 of
                           Inl e \<Rightarrow> load_failed e s2
                         | Inr h \<Rightarrow>
                             (let s3 = s2\<lparr>model := Some h\<rparr>;
                                  r3 = model_eval bk (events s3) h;
                                  s4 = record_event (Eval h r3) s3
                              in case r3 of
                                   Some e \<Rightarrow> load_failed e s4
                                 | None \<Rightarrow>
                                     (let s5 = s4\<lparr>model_loaded := True\<rparr>
                                      in (Inr (model s5), s5))))))"

text \<open>
  \<^verbatim>\<open>_load_model_sync\<close>. In a sequential run the lock is free when the function is
  entered and free again when it is left, and the second test sees what the first saw.
\<close>

definition load_model_sync :: "backend \<Rightarrow> manager \<Rightarrow> (exn + handle option) \<times> manager" where
  "load_model_sync bk s =
     (if model_loaded s \<and> model s \<noteq> None then (Inr (model s), s)
      else if model_loaded s \<and> model s \<noteq> None then (Inr (model s), s)
      else load_attempt bk s)"

definition get_model :: "backend \<Rightarrow> manager \<Rightarrow> (exn + handle option) \<times> manager" where
  "get_model bk s =
     (if \<not> model_loaded s \<or> model s = None then
        (case load_model_sync bk s of
           (Inl e, s') \<Rightarrow> (Inl e, s')
         | (Inr _, s') \<Rightarrow> (Inr (model s'), s'))
      else (Inr (model s), s))"

subsection \<open>Similarity\<close>

text \<open>\<^verbatim>\<open>embeddings[i]\<close>: indexing past the last row raises.\<close>

definition row :: "vec list \<Rightarrow> nat \<Rightarrow> exn + vec" where
  "row embs i = (if i < length embs then Inr (embs ! i) else Inl IndexError)"

text \<open>\<^verbatim>\<open>np.dot\<close> of two one-dimensional arrays: their lengths must agree.\<close>

definition np_dot :: "vec \<Rightarrow> vec \<Rightarrow> exn + real" where
  "np_dot u v =
     (if length u = length v then Inr (\<Sum>(x, y) \<leftarrow> zip u v. x * y) else Inl ValueError)"

text \<open>
  The body of the \<^verbatim>\<open>try\<close> block of \<^verbatim>\<open>_calculate_similarity_sync\<close>. The keyword
  arguments of \<^verbatim>\<open>encode\<close> are the same at every call (no progress bar, numpy arrays,
  \<^verbatim>\<open>normalize_embeddings=True\<close>); what the backend makes of them is part of
  \<open>model_encode\<close>.
\<close>

definition similarity_body ::
  "backend \<Rightarrow> manager \<Rightarrow> string \<Rightarrow> string \<Rightarrow> (exn + real) \<times> manager" where
  "similarity_body bk s text1 text2 =
     (if text1 = [] \<or> text2 = [] then (Inr 0, s)
      else case get_model bk s of
        (Inl e, s') \<Rightarrow> (Inl e, s')
      | (Inr None, s') \<Rightarrow> (Inl AttributeError, s')
      | (Inr (Some h), s') \<Rightarrow>
          (let r = model_encode bk (events s') h [text1, text2];
               s'' = record_event (Encode h [text1, text2] r) s'
           in case r of
                Inl e \<Rightarrow> (Inl e, s'')
              | Inr embeddings \<Rightarrow>
                  (case row embeddings 0 of
                     Inl e \<Rightarrow> (Inl e, s'')
                   | Inr u \<Rightarrow>
                       (case row embeddings 1 of
                          Inl e \<Rightarrow> (Inl e, s'')
                        | Inr v \<Rightarrow> (np_dot u v, s'')))))"

text \<open>
  \<^verbatim>\<open>_calculate_similarity_sync\<close>: the handler turns every exception of the body into
  the value 0.0.
\<close>

definition calculate_similarity_sync ::
  "backend \<Rightarrow> manager \<Rightarrow> string \<Rightarrow> string \<Rightarrow> (exn + real) \<times> manager" where
  "calculate_similarity_sync bk s text1 text2 =
     (case similarity_body bk s text1 text2 of
        (Inl e, s') \<Rightarrow> (Inr 0, s')
      | (Inr similarity, s') \<Rightarrow> (Inr similarity, s'))"

definition calculate_similarity ::
  "backend \<Rightarrow> manager \<Rightarrow> string \<Rightarrow> string \<Rightarrow> (exn + real) \<times> manager" where
  "calculate_similarity bk s text1 text2 = calculate_similarity_sync bk s text1 text2"

text \<open>
  \<^verbatim>\<open>loop.run_in_executor(executor, fn, *args)\<close>, awaited: a pool that was shut down
  refuses the task with a \<^verbatim>\<open>RuntimeError\<close>; otherwise a worker runs \<open>fn\<close> and the
  future resolves to what it returns. With no executor the loop uses its default pool.
\<close>

definition run_in_executor ::
  "executor option \<Rightarrow> (manager \<Rightarrow> (exn + 'a) \<times> manager) \<Rightarrow> manager \<Rightarrow> (exn + 'a) \<times> manager" where
  "run_in_executor ex fn s =
     (case ex of
        None \<Rightarrow> fn s
      | Some pool \<Rightarrow> if shut_down pool then (Inl RuntimeError, s) else fn s)"

definition calculate_similarity_async ::
  "backend \<Rightarrow> manager \<Rightarrow> string \<Rightarrow> string \<Rightarrow> (exn + real) \<times> manager" where
  "calculate_similarity_async bk s text1 text2 =
     run_in_executor (executor s) (\<lambda>s. calculate_similarity_sync bk s text1 text2) s"

text \<open>\<^verbatim>\<open>__del__\<close>: shuts the pool down, if there is one.\<close>

definition del :: "manager \<Rightarrow> manager" where
  "del s =
     (case executor s of
        None \<Rightarrow> s
      | Some pool \<Rightarrow> s\<lparr>executor := Some (pool\<lparr>shut_down := True\<rparr>)\<rparr>)"

subsection \<open>Runs of the service\<close>

text \<open>
  What the callers of the manager do with it, in \<^verbatim>\<open>app/main.py\<close> and in the test
  scripts. A run serves a list of requests one after the other, starting from the global
  instance.
\<close>

datatype request =
    Get_model
  | Calculate_similarity string string
  | Calculate_similarity_async string string
  | Is_ready

fun serve :: "backend \<Rightarrow> manager \<Rightarrow> request \<Rightarrow> manager" where
  "serve bk s Get_model = snd (get_model bk s)"
| "serve bk s (Calculate_similarity text1 text2) = snd (calculate_similarity bk s text1 text2)"
| "serve bk s (Calculate_similarity_async text1 text2) =
     snd (calculate_similarity_async bk s text1 text2)"
| "serve bk s Is_ready = s"

definition run :: "backend \<Rightarrow> request list \<Rightarrow> manager" where
  "run bk reqs = foldl (serve bk) ai_model_manager reqs"

text \<open>Whether the pool of the manager still takes tasks.\<close>

definition pool_open :: "manager \<Rightarrow> bool" where
  "pool_open s = (case executor s of None \<Rightarrow> True | Some pool \<Rightarrow> \<not> shut_down pool)"

text \<open>
  The flag and the history agree: the flag is set exactly when some \<^verbatim>\<open>eval\<close> has
  returned, and then the handle of that call is the stored one.
\<close>

definition flag_inv :: "manager \<Rightarrow> bool" where
  "flag_inv s \<longleftrightarrow>
     (if model_loaded s then \<exists>h. model s = Some h \<and> Eval h None \<in> set (events s)
      else \<forall>h. Eval h None \<notin> set (events s))"

subsection \<open>Concurrent callers of \<^verbatim>\<open>get_model\<close>\<close>

text \<open>
  Several threads call \<^verbatim>\<open>get_model\<close> on the one manager. A thread is at a program
  point of \<^verbatim>\<open>get_model\<close> or of \<^verbatim>\<open>_load_model_sync\<close>, named after the line of the
  source it is about to execute. One step of a thread is one read or one write of an
  attribute, one call to the backend, or taking or releasing the lock; between two steps
  of a thread any other thread may run. The test
  \<^verbatim>\<open>self._model_loaded and self._model is not None\<close> reads the two attributes in two
  steps. A point that carries a value holds what the thread has in hand: the imported
  settings, the handle the constructor returned, or the exception being handled.
\<close>

datatype pc =
    G78_loaded
  | G78_model
  | L40_loaded
  | L40_model
  | L43_acquire
  | L44_loaded
  | L44_model
  | L45_return
  | L48_import
  | L50_makedirs Settings
  | L56_construct Settings
  | L56_store handle
  | L63_eval
  | L66_set_loaded
  | L69_return
  | L73_clear exn
  | L74_raise exn
  | G80_return
  | Done "exn + handle option"

text \<open>
  The step of a thread at a program point, on the manager and the lock
  (\<open>True\<close>: held). \<open>None\<close>: the thread cannot move, because it has returned or
  because it waits for the lock. Leaving the \<^verbatim>\<open>with\<close> block, by \<^verbatim>\<open>return\<close> or by
  an exception, releases the lock.
\<close>

fun thread_step :: "backend \<Rightarrow> manager \<Rightarrow> bool \<Rightarrow> pc \<Rightarrow> (manager \<times> bool \<times> pc) option" where
  "thread_step bk m l G78_loaded =
     Some (m, l, if \<not> model_loaded m then L40_loaded else G78_model)"
| "thread_step bk m l G78_model =
     Some (m, l, if model m = None then L40_loaded else G80_return)"
| "thread_step bk m l L40_loaded =
     Some (m, l, if model_loaded m then L40_model else L43_acquire)"
| "thread_step bk m l L40_model =
     Some (m, l, if model m \<noteq> None then G80_return else L43_acquire)"
| "thread_step bk m l L43_acquire =
     (if l then None else Some (m, True, L44_loaded))"
| "thread_step bk m l L44_loaded =
     Some (m, l, if model_loaded m then L44_model else L48_import)"
| "thread_step bk m l L44_model =
     Some (m, l, if model m \<noteq> None then L45_return else L48_import)"
| "thread_step bk m l L45_return = Some (m, False, G80_return)"
| "thread_step bk m l L48_import =
     (let r = import_settings bk (events m)
      in Some (record_event (Import_settings r) m, l,
               case r of Inl e \<Rightarrow> L73_clear e | Inr settings \<Rightarrow> L50_makedirs settings))"
| "thread_step bk m l (L50_makedirs settings) =
     (let dir = model_cache_dir settings;
          r = os_makedirs bk (events m) dir
      in Some (record_event (Makedirs dir r) m, l,
               case r of Some e \<Rightarrow> L73_clear e | None \<Rightarrow> L56_construct settings))"
| "thread_step bk m l (L56_construct settings) =
     (let dir = model_cache_dir settings;
          name = model_name settings;
          r = SentenceTransformer bk (events m) name dir
      in Some (record_event (Construct name dir r) m, l,
               case r of Inl e \<Rightarrow> L73_clear e | Inr h \<Rightarrow> L56_store h))"
| "thread_step bk m l (L56_store h) = Some (m\<lparr>model := Some h\<rparr>, l, L63_eval)"
| "thread_step bk m l L63_eval =
     (case model m of
        None \<Rightarrow> Some (m, l, L73_clear AttributeError)
      | Some h \<Rightarrow>
          (let r = model_eval bk (events m) h
           in Some (record_event (Eval h r) m, l,
                    case r of Some e \<Rightarrow> L73_clear e | None \<Rightarrow> L66_set_loaded)))"
| "thread_step bk m l L66_set_loaded = Some (m\<lparr>model_loaded := True\<rparr>, l, L69_return)"
| "thread_step bk m l L69_return = Some (m, False, G80_return)"
| "thread_step bk m l (L73_clear e) = Some (m\<lparr>model_loaded := False\<rparr>, l, L74_raise e)"
| "thread_step bk m l (L74_raise e) = Some (m, False, Done (Inl e))"
| "thread_step bk m l G80_return = Some (m, l, Done (Inr (model m)))"
| "thread_step bk m l (Done r) = None"

record system =
  mgr :: manager
  lock_held :: bool
  threads :: "pc list"

text \<open>The scheduler lets thread \<open>i\<close> run one step; a thread that cannot move stays.\<close>

definition step :: "backend \<Rightarrow> system \<Rightarrow> nat \<Rightarrow> system" where
  "step bk sys i =
     (if i < length (threads sys) then
        (case thread_step bk (mgr sys) (lock_held sys) (threads sys ! i) of
           None \<Rightarrow> sys
         | Some (m, l, q) \<Rightarrow> \<lparr>mgr = m, lock_held = l, threads = (threads sys)[i := q]\<rparr>)
      else sys)"

text \<open>A schedule is the list of the threads that run, in order.\<close>

definition exec :: "backend \<Rightarrow> nat list \<Rightarrow> system \<Rightarrow> system" where
  "exec bk sched sys = foldl (step bk) sys sched"

text \<open>\<open>n\<close> threads enter \<^verbatim>\<open>get_model\<close> on the fresh global instance.\<close>

definition start :: "nat \<Rightarrow> system" where
  "start n = \<lparr>mgr = ai_model_manager, lock_held = False, threads = replicate n G78_loaded\<rparr>"

fun is_done :: "pc \<Rightarrow> bool" where
  "is_done (Done r) = True"
| "is_done q = False"

definition all_done :: "system \<Rightarrow> bool" where
  "all_done sys \<longleftrightarrow> list_all is_done (threads sys)"

subsection \<open>Counting the calls to the backend\<close>

fun is_load_start :: "event \<Rightarrow> bool" where
  "is_load_start (Import_settings r) = True"
| "is_load_start ev = False"

fun is_encode :: "event \<Rightarrow> bool" where
  "is_encode (Encode h ts r) = True"
| "is_encode ev = False"

text \<open>
  An execution of the load operation starts with the import of the settings, the first
  statement of the \<^verbatim>\<open>try\<close> block, so the executions are counted there.
\<close>

definition load_count :: "manager \<Rightarrow> nat" where
  "load_count s = length (filter is_load_start (events s))"

definition encode_count :: "manager \<Rightarrow> nat" where
  "encode_count s = length (filter is_encode (events s))"

subsection \<open>Assumptions on the backend\<close>

text \<open>A backend whose loader succeeds at every attempt and yields the handle \<open>h\<close>.\<close>

definition loads_ok :: "backend \<Rightarrow> handle \<Rightarrow> bool" where
  "loads_ok bk h \<longleftrightarrow>
     (\<forall>hist e. import_settings bk hist \<noteq> Inl e) \<and>
     (\<forall>hist d. os_makedirs bk hist d = None) \<and>
     (\<forall>hist n d. SentenceTransformer bk hist n d = Inr h) \<and>
     (\<forall>hist. model_eval bk hist h = None)"

text \<open>
  The first call of a load started in state \<open>s\<close> at which the backend raises, and the
  exception: the calls are made in the order of the \<^verbatim>\<open>try\<close> block, each with the
  history it will see, and the state is not touched. \<open>None\<close>: no call raises.
\<close>

datatype stage = At_import | At_makedirs | At_constructor | At_eval handle

definition load_failure :: "backend \<Rightarrow> manager \<Rightarrow> (stage \<times> exn) option" where
  "load_failure bk s =
     (case import_settings bk (events s) of
        Inl e \<Rightarrow> Some (At_import, e)
      | Inr cfg \<Rightarrow>
          (let h0 = events s @ [Import_settings (Inr cfg)]
           in case os_makedirs bk h0 (model_cache_dir cfg) of
                Some e \<Rightarrow> Some (At_makedirs, e)
              | None \<Rightarrow>
                  (let h1 = h0 @ [Makedirs (model_cache_dir cfg) None]
                   in case SentenceTransformer bk h1 (model_name cfg) (model_cache_dir cfg) of
                        Inl e \<Rightarrow> Some (At_constructor, e)
                      | Inr h \<Rightarrow>
                          (let h2 = h1 @ [Construct (model_name cfg) (model_cache_dir cfg) (Inr h)]
                           in case model_eval bk h2 h of
                                Some e \<Rightarrow> Some (At_eval h, e)
                              | None \<Rightarrow> None))))"

text \<open>
  A backend that embeds each text of a batch on its own, by the function \<open>emb\<close>, and
  raises the exception of the first text that cannot be embedded.
\<close>

fun encode_each :: "(string \<Rightarrow> exn + vec) \<Rightarrow> string list \<Rightarrow> exn + vec list" where
  "encode_each emb [] = Inr []"
| "encode_each emb (t # ts) =
     (case emb t of
        Inl e \<Rightarrow> Inl e
      | Inr v \<Rightarrow> (case encode_each emb ts of Inl e \<Rightarrow> Inl e | Inr vs \<Rightarrow> Inr (v # vs)))"

definition per_text :: "backend \<Rightarrow> (handle \<Rightarrow> string \<Rightarrow> exn + vec) \<Rightarrow> bool" where
  "per_text bk emb \<longleftrightarrow> (\<forall>hist h ts. model_encode bk hist h ts = encode_each (emb h) ts)"

subsection \<open>Assertions for the concurrent callers\<close>

text \<open>The program points inside the \<^verbatim>\<open>with self._lock\<close> block.\<close>

fun holds_lock :: "pc \<Rightarrow> bool" where
  "holds_lock L44_loaded = True"
| "holds_lock L44_model = True"
| "holds_lock L45_return = True"
| "holds_lock L48_import = True"
| "holds_lock (L50_makedirs settings) = True"
| "holds_lock (L56_construct settings) = True"
| "holds_lock (L56_store h) = True"
| "holds_lock L63_eval = True"
| "holds_lock L66_set_loaded = True"
| "holds_lock L69_return = True"
| "holds_lock (L73_clear e) = True"
| "holds_lock (L74_raise e) = True"
| "holds_lock q = False"

text \<open>The points of a load that has imported the settings and has not yet set the flag.\<close>

fun loading :: "pc \<Rightarrow> bool" where
  "loading (L50_makedirs settings) = True"
| "loading (L56_construct settings) = True"
| "loading (L56_store h) = True"
| "loading L63_eval = True"
| "loading L66_set_loaded = True"
| "loading q = False"

text \<open>The manager after the one successful load of the handle \<open>h\<close>.\<close>

definition loaded_with :: "handle \<Rightarrow> manager \<Rightarrow> bool" where
  "loaded_with h m \<longleftrightarrow> model_loaded m \<and> model m = Some h \<and> load_count m = 1"

text \<open>
  What holds of the manager while a thread is at a program point, for a backend whose loader
  yields \<open>h\<close>: a thread that has read the flag as set, or is about to return, sees the
  loaded manager; the loading thread sees its own progress; no thread is in the handler.
\<close>

fun pc_ok :: "handle \<Rightarrow> manager \<Rightarrow> pc \<Rightarrow> bool" where
  "pc_ok h m G78_loaded = True"
| "pc_ok h m G78_model = loaded_with h m"
| "pc_ok h m L40_loaded = True"
| "pc_ok h m L40_model = loaded_with h m"
| "pc_ok h m L43_acquire = True"
| "pc_ok h m L44_loaded = True"
| "pc_ok h m L44_model = loaded_with h m"
| "pc_ok h m L45_return = loaded_with h m"
| "pc_ok h m L48_import = (\<not> model_loaded m \<and> model m = None \<and> load_count m = 0)"
| "pc_ok h m (L50_makedirs settings) =
     (\<not> model_loaded m \<and> model m = None \<and> load_count m = 1)"
| "pc_ok h m (L56_construct settings) =
     (\<not> model_loaded m \<and> model m = None \<and> load_count m = 1)"
| "pc_ok h m (L56_store h') = (h' = h \<and> \<not> model_loaded m \<and> model m = None \<and> load_count m = 1)"
| "pc_ok h m L63_eval = (\<not> model_loaded m \<and> model m = Some h \<and> load_count m = 1)"
| "pc_ok h m L66_set_loaded = (\<not> model_loaded m \<and> model m = Some h \<and> load_count m = 1)"
| "pc_ok h m L69_return = loaded_with h m"
| "pc_ok h m (L73_clear e) = False"
| "pc_ok h m (L74_raise e) = False"
| "pc_ok h m G80_return = loaded_with h m"
| "pc_ok h m (Done r) = (r = Inr (Some h) \<and> loaded_with h m)"

text \<open>
  The invariant of the concurrent system: every thread's assertion holds, at most one
  thread is inside the \<^verbatim>\<open>with\<close> block, the lock is held exactly when one is, and the
  manager is either loaded with \<open>h\<close>, or being loaded, or untouched.
\<close>

definition conc_inv :: "handle \<Rightarrow> system \<Rightarrow> bool" where
  "conc_inv h sys \<longleftrightarrow>
     (\<forall>i < length (threads sys). pc_ok h (mgr sys) (threads sys ! i)) \<and>
     (\<forall>i < length (threads sys). \<forall>j < length (threads sys).
        holds_lock (threads sys ! i) \<longrightarrow> holds_lock (threads sys ! j) \<longrightarrow> i = j) \<and>
     (lock_held sys \<longleftrightarrow> (\<exists>i < length (threads sys). holds_lock (threads sys ! i))) \<and>
     (model_loaded (mgr sys) \<longrightarrow> loaded_with h (mgr sys)) \<and>
     (\<not> model_loaded (mgr sys) \<longrightarrow> (\<forall>i < length (threads sys). \<not> loading (threads sys ! i)) \<longrightarrow>
        model (mgr sys) = None \<and> load_count (mgr sys) = 0)"

text \<open>
  The number of steps a thread can still take, at most: every step of a thread whose
  assertion holds lowers it. (A thread at \<open>L44_model\<close> has read the flag as set, so it
  finds the handle and returns.)
\<close>

fun rank :: "pc \<Rightarrow> nat" where
  "rank G78_loaded = 14"
| "rank G78_model = 13"
| "rank L40_loaded = 12"
| "rank L40_model = 11"
| "rank L43_acquire = 10"
| "rank L44_loaded = 9"
| "rank L44_model = 8"
| "rank L48_import = 8"
| "rank (L50_makedirs settings) = 7"
| "rank (L56_construct settings) = 6"
| "rank (L56_store h) = 5"
| "rank L63_eval = 4"
| "rank L66_set_loaded = 3"
| "rank L45_return = 2"
| "rank L69_return = 2"
| "rank (L73_clear e) = 2"
| "rank (L74_raise e) = 1"
| "rank G80_return = 1"
| "rank (Done r) = 0"

definition steps_left :: "system \<Rightarrow> nat" where
  "steps_left sys = sum_list (map rank (threads sys))"

subsection \<open>Concrete backends\<close>

text \<open>A toy embedding into the plane: two vectors, chosen by the parity of the text's length.\<close>

definition toy_embedding :: "string \<Rightarrow> exn + vec" where
  "toy_embedding t = (if even (length t) then Inr [3/5, 4/5] else Inr [4/5, 3/5])"

text \<open>Loads the handle 1 at every attempt and embeds with \<open>toy_embedding\<close>.\<close>

definition good_backend :: backend where
  "good_backend =
     \<lparr>import_settings = (\<lambda>hist. Inr default_settings),
      os_makedirs = (\<lambda>hist d. None),
      SentenceTransformer = (\<lambda>hist n d. Inr 1),
      model_eval = (\<lambda>hist h. None),
      model_encode = (\<lambda>hist h ts. encode_each toy_embedding ts)\<rparr>"

text \<open>The import of the settings raises: the environment holds a value that does not validate.\<close>

definition bad_config_backend :: backend where
  "bad_config_backend =
     good_backend\<lparr>import_settings := (\<lambda>hist. Inl (Raised ''ValidationError''))\<rparr>"

text \<open>The constructor raises: the model files are missing.\<close>

definition missing_files_backend :: backend where
  "missing_files_backend =
     good_backend\<lparr>SentenceTransformer := (\<lambda>hist n d. Inl (Raised ''OSError''))\<rparr>"

text \<open>The constructor returns the handle 7, and switching it to inference mode raises.\<close>

definition eval_fails_backend :: backend where
  "eval_fails_backend =
     good_backend\<lparr>SentenceTransformer := (\<lambda>hist n d. Inr 7),
                  model_eval := (\<lambda>hist h. Some (Raised ''eval''))\<rparr>"

text \<open>Loads, and raises at every \<^verbatim>\<open>encode\<close>.\<close>

definition encode_fails_backend :: backend where
  "encode_fails_backend =
     good_backend\<lparr>model_encode := (\<lambda>hist h ts. Inl (Raised ''encode''))\<rparr>"

section \<open>Properties\<close>

subsection \<open>Facts about loading\<close>

lemma load_attempt_result:
  "load_attempt bk s = (r, s') \<Longrightarrow>
     (case r of Inl e \<Rightarrow> \<not> model_loaded s' | Inr m \<Rightarrow> model_loaded s' \<and> m = model s' \<and> m \<noteq> None)"
  by (auto simp: load_attempt_def load_failed_def record_event_def Let_def
           split: option.splits sum.splits)

lemma get_model_ready: "is_ready s \<Longrightarrow> get_model bk s = (Inr (model s), s)"
  by (auto simp: get_model_def is_ready_def)

lemma get_model_not_ready: "\<not> is_ready s \<Longrightarrow> get_model bk s = load_attempt bk s"
  by (auto simp: get_model_def is_ready_def load_model_sync_def load_attempt_def load_failed_def
       record_event_def Let_def split: option.splits sum.splits)

lemma get_model_Inl:
  assumes "get_model bk s = (Inl e, s')"
  shows "\<not> is_ready s" and "\<not> is_ready s'" and "load_attempt bk s = (Inl e, s')"
proof -
  show nr: "\<not> is_ready s"
    using assms by (auto simp: get_model_ready)
  then show la: "load_attempt bk s = (Inl e, s')"
    using assms by (simp add: get_model_not_ready)
  from load_attempt_result [OF la] show "\<not> is_ready s'"
    by (simp add: is_ready_def)
qed

lemma get_model_Inr:
  assumes "get_model bk s = (Inr m, s')"
  shows "is_ready s'" and "m = model s'" and "m \<noteq> None"
proof -
  have "is_ready s' \<and> m = model s' \<and> m \<noteq> None"
  proof (cases "is_ready s")
    case True
    with assms show ?thesis by (auto simp: get_model_ready is_ready_def)
  next
    case False
    with assms have "load_attempt bk s = (Inr m, s')" by (simp add: get_model_not_ready)
    from load_attempt_result [OF this] show ?thesis by (auto simp: is_ready_def)
  qed
  then show "is_ready s'" and "m = model s'" and "m \<noteq> None" by auto
qed

lemma load_attempt_load_count:
  "load_count (snd (load_attempt bk s)) = Suc (load_count s)"
  by (simp add: load_attempt_def load_failed_def record_event_def load_count_def Let_def
        split: option.splits sum.splits)

lemma load_attempt_loads_ok:
  "loads_ok bk h \<Longrightarrow> fst (load_attempt bk s) = Inr (Some h)"
  by (auto simp: load_attempt_def loads_ok_def record_event_def Let_def split: sum.splits)

text \<open>The concrete backends, evaluated.\<close>

lemmas eval_defs =
  get_model_def load_model_sync_def load_attempt_def load_failed_def record_event_def
  ai_model_manager_def init_def class_attributes_def is_ready_def Let_def
  good_backend_def default_settings_def

lemma get_model_good:
  "get_model good_backend ai_model_manager =
     (Inr (Some 1),
      \<lparr>model = Some 1, model_loaded = True,
       executor = Some \<lparr>max_workers = 2, thread_name_prefix = ''ai_model'', shut_down = False\<rparr>,
       initialized = True,
       events = [Import_settings (Inr default_settings), Makedirs ''./models'' None,
                 Construct ''all-MiniLM-L6-v2'' ''./models'' (Inr 1), Eval 1 None]\<rparr>)"
  by (simp add: eval_defs)

subsection \<open>Empty input\<close>

text \<open>
  C2. With an empty first or second text, \<^verbatim>\<open>calculate_similarity\<close> returns exactly
  0.0, and the state, with its history of calls to the backend, is unchanged: the number
  of \<^verbatim>\<open>encode\<close> calls is what it was, and no load was started either.
\<close>

theorem empty_input_short_circuit:
  "calculate_similarity bk s [] x = (Inr 0, s) \<and>
   calculate_similarity bk s x [] = (Inr 0, s) \<and>
   encode_count (snd (calculate_similarity bk s [] x)) = encode_count s \<and>
   encode_count (snd (calculate_similarity bk s x [])) = encode_count s \<and>
   events (snd (calculate_similarity bk s [] x)) = events s \<and>
   events (snd (calculate_similarity bk s x [])) = events s"
  by (simp add: calculate_similarity_def calculate_similarity_sync_def similarity_body_def)

subsection \<open>Failing softly\<close>

lemma similarity_never_raises:
  "\<exists>r. fst (calculate_similarity_sync bk s text1 text2) = Inr r"
  by (simp add: calculate_similarity_sync_def split: prod.splits sum.splits)

text \<open>
  C3. When the model is available and the backend raises at the \<^verbatim>\<open>encode\<close> call,
  \<^verbatim>\<open>calculate_similarity\<close> returns the value 0.0, not the exception; the state it
  leaves is the one after loading, with the failed call recorded.
\<close>

theorem encode_failure_returns_zero:
  assumes "text1 \<noteq> []" and "text2 \<noteq> []"
    and "get_model bk s = (Inr (Some h), s')"
    and "model_encode bk (events s') h [text1, text2] = Inl e"
  shows "calculate_similarity bk s text1 text2 =
           (Inr 0, record_event (Encode h [text1, text2] (Inl e)) s')"
  using assms
  by (simp add: calculate_similarity_def calculate_similarity_sync_def similarity_body_def)

theorem encode_failure_returns_zero_witness:
  "''cv'' \<noteq> [] \<and> ''job'' \<noteq> [] \<and>
   fst (get_model encode_fails_backend ai_model_manager) = Inr (Some 1) \<and>
   model_encode encode_fails_backend
     (events (snd (get_model encode_fails_backend ai_model_manager))) 1 [''cv'', ''job'']
     = Inl (Raised ''encode'') \<and>
   fst (calculate_similarity encode_fails_backend ai_model_manager ''cv'' ''job'') = Inr 0"
proof -
  have f: "fst (get_model encode_fails_backend ai_model_manager) = Inr (Some 1)"
    by (simp add: eval_defs encode_fails_backend_def)
  then have g: "get_model encode_fails_backend ai_model_manager =
             (Inr (Some 1), snd (get_model encode_fails_backend ai_model_manager))"
    by (simp add: prod_eq_iff)
  have enc: "model_encode encode_fails_backend
               (events (snd (get_model encode_fails_backend ai_model_manager))) 1 [''cv'', ''job'']
             = Inl (Raised ''encode'')"
    by (simp add: encode_fails_backend_def)
  have "fst (calculate_similarity encode_fails_backend ai_model_manager ''cv'' ''job'') = Inr 0"
    using encode_failure_returns_zero [OF _ _ g enc] by simp
  with f enc show ?thesis by simp
qed

text \<open>
  C10. When the model is not loaded and the load attempted inside
  \<^verbatim>\<open>calculate_similarity\<close> fails, so that \<^verbatim>\<open>get_model\<close> raises, the call
  returns 0.0 and leaves the state that the failed load left. The asynchronous entry
  point does the same while its pool takes tasks; a pool that was shut down refuses the
  task before any load is attempted. In no case does the caller see the load error.
\<close>

theorem load_failure_is_swallowed:
  assumes "text1 \<noteq> []" and "text2 \<noteq> []" and "get_model bk s = (Inl e, s')"
  shows "calculate_similarity bk s text1 text2 = (Inr 0, s') \<and>
         calculate_similarity_async bk s text1 text2 =
           (if pool_open s then (Inr 0, s') else (Inl RuntimeError, s))"
  using assms
  by (auto simp: calculate_similarity_def calculate_similarity_sync_def similarity_body_def
        calculate_similarity_async_def run_in_executor_def pool_open_def split: option.splits)

theorem load_failure_is_swallowed_witness:
  "''cv'' \<noteq> [] \<and> ''job'' \<noteq> [] \<and>
   fst (get_model missing_files_backend ai_model_manager) = Inl (Raised ''OSError'') \<and>
   fst (calculate_similarity missing_files_backend ai_model_manager ''cv'' ''job'') = Inr 0 \<and>
   fst (calculate_similarity_async missing_files_backend ai_model_manager ''cv'' ''job'') = Inr 0"
proof -
  have f: "fst (get_model missing_files_backend ai_model_manager) = Inl (Raised ''OSError'')"
    by (simp add: eval_defs missing_files_backend_def)
  then have g: "get_model missing_files_backend ai_model_manager =
             (Inl (Raised ''OSError''), snd (get_model missing_files_backend ai_model_manager))"
    by (simp add: prod_eq_iff)
  have p: "pool_open ai_model_manager"
    by (simp add: pool_open_def ai_model_manager_def init_def class_attributes_def)
  have "fst (calculate_similarity missing_files_backend ai_model_manager ''cv'' ''job'') = Inr 0 \<and>
    fst (calculate_similarity_async missing_files_backend ai_model_manager ''cv'' ''job'') = Inr 0"
    using load_failure_is_swallowed [OF _ _ g, of "''cv''" "''job''"] p by simp
  with f show ?thesis by simp
qed

subsection \<open>A failed load\<close>

lemma load_attempt_failure:
  assumes "load_failure bk s = Some (st, e)"
  shows "fst (load_attempt bk s) = Inl e \<and>
         model (snd (load_attempt bk s)) = (case st of At_eval h \<Rightarrow> Some h | _ \<Rightarrow> model s)"
  using assms
  by (auto simp: load_failure_def load_attempt_def load_failed_def record_event_def Let_def
        split: sum.splits option.splits)

lemma load_attempt_no_failure:
  assumes "load_failure bk s = None"
  shows "\<exists>h. fst (load_attempt bk s) = Inr (Some h)"
  using assms
  by (auto simp: load_failure_def load_attempt_def load_failed_def record_event_def Let_def
        split: sum.splits option.splits)

text \<open>\<^verbatim>\<open>get_model\<close> raises exactly when it has to load and a call of the load raises.\<close>

lemma get_model_raises_iff:
  "fst (get_model bk s) = Inl e \<longleftrightarrow> \<not> is_ready s \<and> (\<exists>st. load_failure bk s = Some (st, e))"
proof (cases "is_ready s")
  case True
  then show ?thesis by (simp add: get_model_ready)
next
  case False
  show ?thesis
  proof (cases "load_failure bk s")
    case None
    from load_attempt_no_failure [OF this] False show ?thesis
      by (auto simp: get_model_not_ready None)
  next
    case (Some f)
    obtain st e' where f: "f = (st, e')" by (cases f)
    from load_attempt_failure [of bk s st e'] Some f False show ?thesis
      by (auto simp: get_model_not_ready)
  qed
qed

text \<open>
  C4, as amended. When the manager is not ready and a call of the load raises (the import
  of the settings, \<^verbatim>\<open>os.makedirs\<close>, the constructor or \<^verbatim>\<open>eval\<close>), \<^verbatim>\<open>get_model\<close>
  raises that exception and the manager is not ready afterwards. One load was executed, and
  the next call of \<^verbatim>\<open>get_model\<close> executes one more, with whatever backend it meets; if
  no call raises then, it returns a handle and the manager is ready. The stored handle
  is unchanged when the import, \<^verbatim>\<open>os.makedirs\<close> or the constructor raised; when
  \<^verbatim>\<open>eval\<close> raised, the handle just constructed stays stored in \<^verbatim>\<open>_model\<close>.
\<close>

theorem failed_load_propagates:
  assumes "\<not> is_ready s" and "load_failure bk s = Some (st, e)"
  shows "fst (get_model bk s) = Inl e \<and>
         \<not> is_ready (snd (get_model bk s)) \<and>
         model (snd (get_model bk s)) = (case st of At_eval h \<Rightarrow> Some h | _ \<Rightarrow> model s) \<and>
         load_count (snd (get_model bk s)) = Suc (load_count s) \<and>
         load_count (snd (get_model bk2 (snd (get_model bk s)))) = Suc (Suc (load_count s)) \<and>
         (load_failure bk2 (snd (get_model bk s)) = None \<longrightarrow>
            (\<exists>h. fst (get_model bk2 (snd (get_model bk s))) = Inr (Some h)) \<and>
            is_ready (snd (get_model bk2 (snd (get_model bk s)))))"
proof -
  define s' where "s' = snd (get_model bk s)"
  have g: "get_model bk s = load_attempt bk s"
    using assms(1) by (rule get_model_not_ready)
  have raised: "fst (get_model bk s) = Inl e"
    and kept: "model s' = (case st of At_eval h \<Rightarrow> Some h | _ \<Rightarrow> model s)"
    using load_attempt_failure [OF assms(2)] by (simp_all add: g s'_def)
  from raised have "get_model bk s = (Inl e, s')"
    by (simp add: s'_def prod_eq_iff)
  from get_model_Inl(2) [OF this] have nr: "\<not> is_ready s'" .
  have c1: "load_count s' = Suc (load_count s)"
    by (simp add: s'_def g load_attempt_load_count)
  have retry: "get_model bk2 s' = load_attempt bk2 s'"
    using nr by (rule get_model_not_ready)
  have c2: "load_count (snd (get_model bk2 s')) = Suc (Suc (load_count s))"
    by (simp add: retry load_attempt_load_count c1)
  have ok: "(\<exists>h. fst (get_model bk2 s') = Inr (Some h)) \<and> is_ready (snd (get_model bk2 s'))"
    if "load_failure bk2 s' = None"
  proof -
    from load_attempt_no_failure [OF that] obtain h where
      h: "fst (get_model bk2 s') = Inr (Some h)" by (auto simp: retry)
    then have "get_model bk2 s' = (Inr (Some h), snd (get_model bk2 s'))"
      by (simp add: prod_eq_iff)
    from get_model_Inr(1) [OF this] h show ?thesis by blast
  qed
  from raised nr kept c1 c2 ok show ?thesis
    unfolding s'_def by blast
qed

theorem failed_load_propagates_witness:
  "is_ready ai_model_manager = False \<and>
   load_failure missing_files_backend ai_model_manager =
     Some (At_constructor, Raised ''OSError'') \<and>
   fst (get_model missing_files_backend ai_model_manager) = Inl (Raised ''OSError'') \<and>
   is_ready (snd (get_model missing_files_backend ai_model_manager)) = False \<and>
   model (snd (get_model missing_files_backend ai_model_manager)) = None \<and>
   load_count (snd (get_model missing_files_backend ai_model_manager)) = 1 \<and>
   load_failure good_backend (snd (get_model missing_files_backend ai_model_manager)) = None \<and>
   fst (get_model good_backend (snd (get_model missing_files_backend ai_model_manager)))
     = Inr (Some 1) \<and>
   is_ready (snd (get_model good_backend
      (snd (get_model missing_files_backend ai_model_manager)))) \<and>
   load_count (snd (get_model good_backend
      (snd (get_model missing_files_backend ai_model_manager)))) = 2"
proof -
  have nr: "\<not> is_ready ai_model_manager"
    by (simp add: is_ready_def ai_model_manager_def init_def class_attributes_def)
  have lf: "load_failure missing_files_backend ai_model_manager =
              Some (At_constructor, Raised ''OSError'')"
    by (simp add: load_failure_def missing_files_backend_def good_backend_def Let_def)
  have lf2: "load_failure good_backend s = None" for s
    by (simp add: load_failure_def good_backend_def Let_def)
  have g2: "fst (get_model good_backend (snd (get_model missing_files_backend ai_model_manager)))
              = Inr (Some 1)"
    by (simp add: eval_defs missing_files_backend_def)
  have c0: "load_count ai_model_manager = 0"
    by (simp add: load_count_def ai_model_manager_def init_def class_attributes_def)
  have m0: "model ai_model_manager = None"
    by (simp add: ai_model_manager_def init_def class_attributes_def)
  from failed_load_propagates [OF nr lf, of good_backend] nr lf lf2 g2 c0 m0
  show ?thesis by (simp add: numeral_2_eq_2)
qed

text \<open>The import of the settings raises: no call reaches the file system or the model.\<close>

lemma import_failure_propagates:
  "get_model bad_config_backend ai_model_manager =
     (Inl (Raised ''ValidationError''),
      record_event (Import_settings (Inl (Raised ''ValidationError''))) ai_model_manager)"
  by (simp add: eval_defs bad_config_backend_def)

text \<open>
  C4, as stated, says that no model handle is retained after a failed load. With a
  backend whose constructor returns the handle 7 and whose \<^verbatim>\<open>eval\<close> raises, the
  handle 7 is stored in \<^verbatim>\<open>_model\<close> after the failed \<^verbatim>\<open>get_model\<close>.
\<close>

theorem eval_failure_retains_handle:
  "fst (get_model eval_fails_backend ai_model_manager) = Inl (Raised ''eval'') \<and>
   model (snd (get_model eval_fails_backend ai_model_manager)) = Some 7 \<and>
   is_ready (snd (get_model eval_fails_backend ai_model_manager)) = False"
  by (simp add: get_model_def load_model_sync_def load_attempt_def load_failed_def
        record_event_def eval_fails_backend_def good_backend_def ai_model_manager_def
        init_def class_attributes_def is_ready_def Let_def)

subsection \<open>Symmetry\<close>

lemma dot_commute:
  "(\<Sum>(x, y) \<leftarrow> zip u v. x * y) = (\<Sum>(x, y) \<leftarrow> zip v u. x * (y::real))"
proof (induction u arbitrary: v)
  case Nil
  then show ?case by simp
next
  case (Cons a u)
  then show ?case by (cases v) (simp_all add: mult.commute)
qed

lemma np_dot_commute: "np_dot u v = np_dot v u"
  using dot_commute [of u v] by (simp add: np_dot_def)

lemma similarity_body_per_text:
  assumes "text1 \<noteq> []" and "text2 \<noteq> []" and "per_text bk emb"
  shows "fst (similarity_body bk s text1 text2) =
     (case get_model bk s of
        (Inl e, s') \<Rightarrow> Inl e
      | (Inr None, s') \<Rightarrow> Inl AttributeError
      | (Inr (Some h), s') \<Rightarrow>
          (case emb h text1 of
             Inl e \<Rightarrow> Inl e
           | Inr u \<Rightarrow> (case emb h text2 of Inl e \<Rightarrow> Inl e | Inr v \<Rightarrow> np_dot u v)))"
proof -
  have enc: "model_encode bk hist h [text1, text2] = encode_each (emb h) [text1, text2]"
    for hist h
    using assms(3) by (simp add: per_text_def)
  show ?thesis
    using assms(1,2)
    by (simp add: similarity_body_def enc row_def Let_def
          split: prod.splits sum.splits option.splits)
qed

lemma calculate_similarity_fst:
  "fst (calculate_similarity bk s text1 text2) =
     (case fst (similarity_body bk s text1 text2) of Inl e \<Rightarrow> Inr 0 | Inr r \<Rightarrow> Inr r)"
  by (simp add: calculate_similarity_def calculate_similarity_sync_def
        split: prod.splits sum.splits)

text \<open>
  C6. With a backend that embeds each text of a batch on its own, the similarity of two
  non-empty texts does not depend on their order.
\<close>

theorem similarity_symmetric:
  assumes "text1 \<noteq> []" and "text2 \<noteq> []" and "per_text bk emb"
  shows "fst (calculate_similarity bk s text1 text2) =
         fst (calculate_similarity bk s text2 text1)"
proof -
  have "(case fst (similarity_body bk s text1 text2) of Inl e \<Rightarrow> Inr 0 | Inr r \<Rightarrow> Inr r) =
        (case fst (similarity_body bk s text2 text1) of Inl e \<Rightarrow> Inr 0 | Inr r \<Rightarrow> Inr (r::real))"
    unfolding similarity_body_per_text [OF assms(1,2,3)]
              similarity_body_per_text [OF assms(2,1,3)]
    by (auto simp: np_dot_commute [of _ _] split: prod.splits sum.splits option.splits)
  then show ?thesis by (simp only: calculate_similarity_fst)
qed

lemma per_text_good: "per_text good_backend (\<lambda>h. toy_embedding)"
  by (simp add: per_text_def good_backend_def)

theorem similarity_symmetric_witness:
  "''ab'' \<noteq> [] \<and> ''abc'' \<noteq> [] \<and> per_text good_backend (\<lambda>h. toy_embedding) \<and>
   fst (calculate_similarity good_backend ai_model_manager ''ab'' ''abc'') = Inr (24 / 25) \<and>
   fst (calculate_similarity good_backend ai_model_manager ''abc'' ''ab'') = Inr (24 / 25)"
proof -
  have enc: "model_encode good_backend hist h [''ab'', ''abc''] = Inr [[3/5, 4/5], [4/5, 3/5]]"
    for hist h
    by (simp add: good_backend_def toy_embedding_def)
  have v: "fst (calculate_similarity good_backend ai_model_manager ''ab'' ''abc'') = Inr (24 / 25)"
    by (simp add: calculate_similarity_def calculate_similarity_sync_def similarity_body_def
        get_model_good enc row_def np_dot_def record_event_def Let_def)
  from similarity_symmetric [OF _ _ per_text_good, of "''ab''" "''abc''" ai_model_manager]
    per_text_good v
  show ?thesis by simp
qed

subsection \<open>The asynchronous entry point\<close>

lemma pool_open_async:
  "pool_open s \<Longrightarrow>
   calculate_similarity_async bk s text1 text2 = calculate_similarity bk s text1 text2"
  by (simp add: calculate_similarity_async_def calculate_similarity_def run_in_executor_def
        pool_open_def split: option.splits)

lemma executor_load_attempt: "executor (snd (load_attempt bk s)) = executor s"
  by (simp add: load_attempt_def load_failed_def record_event_def Let_def
        split: option.splits sum.splits)

lemma executor_get_model: "executor (snd (get_model bk s)) = executor s"
  by (cases "is_ready s") (simp_all add: get_model_ready get_model_not_ready executor_load_attempt)

lemma executor_similarity_body:
  "executor (snd (similarity_body bk s text1 text2)) = executor s"
proof -
  obtain g s0 where gm: "get_model bk s = (g, s0)"
    by (cases "get_model bk s")
  with executor_get_model [of bk s] have "executor s0 = executor s" by simp
  then show ?thesis
    by (auto simp: similarity_body_def gm record_event_def Let_def
          split: sum.splits option.splits)
qed

lemma executor_calculate_similarity_sync:
  "executor (snd (calculate_similarity_sync bk s text1 text2)) = executor s"
  using executor_similarity_body [of bk s text1 text2]
  by (auto simp: calculate_similarity_sync_def split: prod.splits sum.splits)

lemma executor_serve: "executor (serve bk s req) = executor s"
  by (cases req)
     (simp_all add: executor_get_model calculate_similarity_def
        executor_calculate_similarity_sync calculate_similarity_async_def run_in_executor_def
        split: option.splits)

lemma executor_foldl_serve: "executor (foldl (serve bk) s reqs) = executor s"
  by (induction reqs arbitrary: s) (simp_all add: executor_serve)

lemma pool_open_run: "pool_open (run bk reqs)"
  by (simp add: pool_open_def run_def executor_foldl_serve ai_model_manager_def init_def
        class_attributes_def)

text \<open>
  C8. On a manager whose pool takes tasks, \<^verbatim>\<open>calculate_similarity_async\<close> resolves to
  what \<^verbatim>\<open>calculate_similarity\<close> returns from the same state, value and state. The
  pool of the global instance takes tasks in every run of the service, whatever the
  backend did: no request shuts it down.
\<close>

theorem async_equals_sync:
  "(pool_open s \<longrightarrow>
      calculate_similarity_async bk s text1 text2 = calculate_similarity bk s text1 text2) \<and>
   calculate_similarity_async bk (run bk' reqs) text1 text2 =
     calculate_similarity bk (run bk' reqs) text1 text2"
  by (simp add: pool_open_async pool_open_run)

theorem async_equals_sync_witness:
  "pool_open ai_model_manager \<and>
   calculate_similarity_async good_backend ai_model_manager ''ab'' ''abc'' =
     calculate_similarity good_backend ai_model_manager ''ab'' ''abc'' \<and>
   fst (calculate_similarity_async good_backend ai_model_manager ''ab'' ''abc'') = Inr (24 / 25) \<and>
   calculate_similarity_async good_backend
       (run missing_files_backend [Get_model, Calculate_similarity ''a'' ''b'']) ''ab'' ''abc'' =
     calculate_similarity good_backend
       (run missing_files_backend [Get_model, Calculate_similarity ''a'' ''b'']) ''ab'' ''abc''"
proof -
  have p: "pool_open ai_model_manager"
    by (simp add: pool_open_def ai_model_manager_def init_def class_attributes_def)
  have enc: "model_encode good_backend hist h [''ab'', ''abc''] = Inr [[3/5, 4/5], [4/5, 3/5]]"
    for hist h
    by (simp add: good_backend_def toy_embedding_def)
  have v: "fst (calculate_similarity good_backend ai_model_manager ''ab'' ''abc'') = Inr (24 / 25)"
    by (simp add: calculate_similarity_def calculate_similarity_sync_def similarity_body_def
        get_model_good enc row_def np_dot_def record_event_def Let_def)
  from async_equals_sync [of ai_model_manager good_backend "''ab''" "''abc''"
      missing_files_backend "[Get_model, Calculate_similarity ''a'' ''b'']"] p v
  show ?thesis by simp
qed

text \<open>
  Only \<^verbatim>\<open>__del__\<close> shuts the pool down, and the interpreter runs it when the manager
  is no longer referenced. A task submitted after it would be refused.
\<close>

lemma async_after_del:
  "calculate_similarity_async bk (del ai_model_manager) text1 text2 =
     (Inl RuntimeError, del ai_model_manager)"
  by (simp add: calculate_similarity_async_def run_in_executor_def del_def ai_model_manager_def
        init_def class_attributes_def)

subsection \<open>Readiness\<close>

lemma flag_inv_load_attempt:
  "flag_inv s \<Longrightarrow> \<not> is_ready s \<Longrightarrow> flag_inv (snd (load_attempt bk s))"
  by (auto simp: flag_inv_def is_ready_def load_attempt_def load_failed_def record_event_def
        Let_def split: option.splits sum.splits if_splits)

lemma flag_inv_get_model: "flag_inv s \<Longrightarrow> flag_inv (snd (get_model bk s))"
  by (cases "is_ready s") (simp_all add: get_model_ready get_model_not_ready flag_inv_load_attempt)

lemma flag_inv_record_encode: "flag_inv s \<Longrightarrow> flag_inv (record_event (Encode h ts r) s)"
  by (auto simp: flag_inv_def record_event_def)

lemma flag_inv_similarity_body:
  assumes "flag_inv s"
  shows "flag_inv (snd (similarity_body bk s text1 text2))"
proof -
  obtain g s0 where gm: "get_model bk s = (g, s0)"
    by (cases "get_model bk s")
  with flag_inv_get_model [OF assms, of bk] have "flag_inv s0" by simp
  then show ?thesis
    using assms
    by (auto simp: similarity_body_def gm Let_def flag_inv_record_encode
          split: sum.splits option.splits)
qed

lemma flag_inv_calculate_similarity_sync:
  "flag_inv s \<Longrightarrow> flag_inv (snd (calculate_similarity_sync bk s text1 text2))"
  using flag_inv_similarity_body [of s bk text1 text2]
  by (auto simp: calculate_similarity_sync_def split: prod.splits sum.splits)

lemma flag_inv_serve: "flag_inv s \<Longrightarrow> flag_inv (serve bk s req)"
  by (cases req)
     (auto simp: flag_inv_get_model calculate_similarity_def
        flag_inv_calculate_similarity_sync calculate_similarity_async_def run_in_executor_def
        split: option.splits)

lemma flag_inv_foldl_serve: "flag_inv s \<Longrightarrow> flag_inv (foldl (serve bk) s reqs)"
  by (induction reqs arbitrary: s) (simp_all add: flag_inv_serve)

lemma flag_inv_run: "flag_inv (run bk reqs)"
  unfolding run_def
  by (rule flag_inv_foldl_serve)
     (simp add: flag_inv_def ai_model_manager_def init_def class_attributes_def)

text \<open>
  C9. In every state that a run of the service reaches, \<^verbatim>\<open>is_ready\<close> is true exactly
  when some handle was loaded successfully (its \<^verbatim>\<open>eval\<close> returned) and is the stored
  one. The fresh manager is not ready, a \<^verbatim>\<open>get_model\<close> that raises leaves the manager
  not ready, and one that returns leaves it ready.
\<close>

theorem is_ready_iff_loaded:
  "(is_ready (run bk reqs) \<longleftrightarrow>
      (\<exists>h. model (run bk reqs) = Some h \<and> Eval h None \<in> set (events (run bk reqs)))) \<and>
   \<not> is_ready ai_model_manager \<and>
   (get_model bk (run bk reqs) = (Inl e, s') \<longrightarrow> \<not> is_ready s') \<and>
   (get_model bk (run bk reqs) = (Inr m, s') \<longrightarrow> is_ready s')"
proof -
  have "is_ready (run bk reqs) \<longleftrightarrow>
      (\<exists>h. model (run bk reqs) = Some h \<and> Eval h None \<in> set (events (run bk reqs)))"
    using flag_inv_run [of bk reqs] by (auto simp: flag_inv_def is_ready_def split: if_splits)
  moreover have "\<not> is_ready ai_model_manager"
    by (simp add: is_ready_def ai_model_manager_def init_def class_attributes_def)
  ultimately show ?thesis
    using get_model_Inl(2) get_model_Inr(1) by blast
qed

theorem is_ready_iff_loaded_witness:
  "is_ready (run good_backend [Get_model]) \<and>
   model (run good_backend [Get_model]) = Some 1 \<and>
   Eval 1 None \<in> set (events (run good_backend [Get_model])) \<and>
   is_ready (run missing_files_backend [Get_model]) = False \<and>
   fst (get_model missing_files_backend (run missing_files_backend [Get_model]))
     = Inl (Raised ''OSError'') \<and>
   is_ready (snd (get_model missing_files_backend (run missing_files_backend [Get_model])))
     = False \<and>
   fst (get_model good_backend (run missing_files_backend [Get_model])) = Inr (Some 1) \<and>
   is_ready (snd (get_model good_backend (run missing_files_backend [Get_model])))"
proof -
  have r1: "run good_backend [Get_model] = snd (get_model good_backend ai_model_manager)"
    by (simp add: run_def)
  have m: "model (run good_backend [Get_model]) = Some 1"
    and ev: "Eval 1 None \<in> set (events (run good_backend [Get_model]))"
    by (simp_all add: r1 get_model_good)
  have f: "fst (get_model missing_files_backend (run missing_files_backend [Get_model]))
             = Inl (Raised ''OSError'')"
    by (simp add: run_def eval_defs missing_files_backend_def)
  have g: "fst (get_model good_backend (run missing_files_backend [Get_model])) = Inr (Some 1)"
    by (simp add: run_def eval_defs missing_files_backend_def)
  note a = is_ready_iff_loaded [of good_backend "[Get_model]"]
  note b = is_ready_iff_loaded [of missing_files_backend "[Get_model]" "Raised ''OSError''"
      "snd (get_model missing_files_backend (run missing_files_backend [Get_model]))"]
  have nr: "is_ready (run missing_files_backend [Get_model]) = False"
    by (simp add: run_def eval_defs missing_files_backend_def)
  have "is_ready (run good_backend [Get_model])"
    using a m ev by blast
  moreover have "is_ready (snd (get_model missing_files_backend
        (run missing_files_backend [Get_model]))) = False"
    using b f by (simp add: prod_eq_iff)
  moreover have "is_ready (snd (get_model good_backend (run missing_files_backend [Get_model])))"
    using g get_model_Inr(1) [of good_backend "run missing_files_backend [Get_model]" "Some 1"
        "snd (get_model good_backend (run missing_files_backend [Get_model]))"]
    by (simp add: prod_eq_iff)
  ultimately show ?thesis using m ev f g nr by simp
qed

subsection \<open>Concurrent first access\<close>

text \<open>
  One thread alone, from any state of the manager with the lock free, does what
  \<^verbatim>\<open>get_model\<close> does: the thread program and the function agree.
\<close>

lemma step_single:
  "step bk \<lparr>mgr = m, lock_held = l, threads = [q]\<rparr> 0 =
     (case thread_step bk m l q of
        None \<Rightarrow> \<lparr>mgr = m, lock_held = l, threads = [q]\<rparr>
      | Some (m', l', q') \<Rightarrow> \<lparr>mgr = m', lock_held = l', threads = [q']\<rparr>)"
  by (simp add: step_def split: option.splits)

lemma exec_single_Cons:
  "exec bk (0 # sched) \<lparr>mgr = m, lock_held = l, threads = [q]\<rparr> =
     exec bk sched (step bk \<lparr>mgr = m, lock_held = l, threads = [q]\<rparr> 0)"
  by (simp add: exec_def)

lemma exec_single_done:
  "exec bk (replicate k 0) \<lparr>mgr = m, lock_held = l, threads = [Done r]\<rparr> =
     \<lparr>mgr = m, lock_held = l, threads = [Done r]\<rparr>"
  by (induction k) (simp_all add: exec_def step_def)

lemma exec_append: "exec bk (xs @ ys) sys = exec bk ys (exec bk xs sys)"
  by (simp add: exec_def)

lemma exec_from_import:
  "exec bk (replicate 8 0) \<lparr>mgr = s, lock_held = True, threads = [L48_import]\<rparr> =
     \<lparr>mgr = snd (load_attempt bk s), lock_held = False,
      threads = [Done (fst (load_attempt bk s))]\<rparr>"
proof (cases "import_settings bk (events s)")
  case (Inl e)
  then show ?thesis
    using exec_single_done [of bk 5]
    by (simp add: numeral_eq_Suc exec_single_Cons step_single load_attempt_def
          load_failed_def Let_def)
next
  case (Inr cfg)
  note im = Inr
  define h0 where "h0 = events s @ [Import_settings (Inr cfg)]"
  show ?thesis
  proof (cases "os_makedirs bk h0 (model_cache_dir cfg)")
    case (Some e)
    with im show ?thesis
      using exec_single_done [of bk 4]
      by (simp add: numeral_eq_Suc exec_single_Cons step_single load_attempt_def
            load_failed_def record_event_def Let_def h0_def)
  next
    case None
    note mk = None
    define h1 where "h1 = h0 @ [Makedirs (model_cache_dir cfg) None]"
    show ?thesis
    proof (cases "SentenceTransformer bk h1 (model_name cfg) (model_cache_dir cfg)")
      case (Inl e)
      with im mk show ?thesis
        using exec_single_done [of bk 3]
        by (simp add: numeral_eq_Suc exec_single_Cons step_single load_attempt_def
              load_failed_def record_event_def Let_def h0_def h1_def)
    next
      case (Inr h)
      note ct = Inr
      define h2 where "h2 = h1 @ [Construct (model_name cfg) (model_cache_dir cfg) (Inr h)]"
      show ?thesis
      proof (cases "model_eval bk h2 h")
        case None
        with im mk ct show ?thesis
          by (simp add: numeral_eq_Suc exec_single_Cons step_single load_attempt_def
                load_failed_def record_event_def Let_def exec_def h0_def h1_def h2_def)
      next
        case (Some e)
        with im mk ct show ?thesis
          using exec_single_done [of bk 1]
          by (simp add: numeral_eq_Suc exec_single_Cons step_single load_attempt_def
                load_failed_def record_event_def Let_def h0_def h1_def h2_def)
      qed
    qed
  qed
qed

lemma single_thread_is_get_model:
  "exec bk (replicate 15 0) \<lparr>mgr = s, lock_held = False, threads = [G78_loaded]\<rparr> =
     \<lparr>mgr = snd (get_model bk s), lock_held = False,
      threads = [Done (fst (get_model bk s))]\<rparr>"
proof (cases "is_ready s")
  case True
  then obtain h where "model_loaded s" "model s = Some h" by (auto simp: is_ready_def)
  then show ?thesis
    using exec_single_done [of bk 12 s False "Inr (Some h)"]
    by (simp add: numeral_eq_Suc exec_single_Cons step_single get_model_ready [OF True])
next
  case False
  note g = get_model_not_ready [OF False]
  show ?thesis
  proof (cases "model_loaded s")
    case True
    with False have none: "model s = None" by (simp add: is_ready_def)
    have split: "replicate 15 0 = replicate 7 0 @ replicate 8 (0::nat)"
      by (simp add: replicate_add [symmetric])
    have "exec bk (replicate 7 0) \<lparr>mgr = s, lock_held = False, threads = [G78_loaded]\<rparr> =
            \<lparr>mgr = s, lock_held = True, threads = [L48_import]\<rparr>"
      using True none
      by (simp add: numeral_eq_Suc exec_single_Cons step_single) (simp add: exec_def)
    then show ?thesis
      by (simp only: split exec_append exec_from_import g)
  next
    case nl: False
    have split: "replicate 15 0 = replicate 4 0 @ replicate 8 0 @ replicate 3 (0::nat)"
      by (simp add: replicate_add [symmetric])
    have "exec bk (replicate 4 0) \<lparr>mgr = s, lock_held = False, threads = [G78_loaded]\<rparr> =
            \<lparr>mgr = s, lock_held = True, threads = [L48_import]\<rparr>"
      using nl
      by (simp add: numeral_eq_Suc exec_single_Cons step_single) (simp add: exec_def)
    then show ?thesis
      by (simp only: split exec_append exec_from_import g exec_single_done)
  qed
qed

text \<open>The invariant is kept by every step of every thread.\<close>

lemma load_count_record_event [simp]:
  "load_count (record_event ev m) = (if is_load_start ev then Suc (load_count m) else load_count m)"
  by (simp add: load_count_def record_event_def)

lemma record_event_fields [simp]:
  "model (record_event ev m) = model m"
  "model_loaded (record_event ev m) = model_loaded m"
  "events (record_event ev m) = events m @ [ev]"
  by (simp_all add: record_event_def)

lemma load_count_updates [simp]:
  "load_count (m\<lparr>model := x\<rparr>) = load_count m"
  "load_count (m\<lparr>model_loaded := b\<rparr>) = load_count m"
  by (simp_all add: load_count_def)

text \<open>The thread that moves establishes the assertion of its next point.\<close>

lemma thread_step_own:
  assumes "loads_ok bk h" and "thread_step bk m l q = Some (m', l', q')"
    and "pc_ok h m q"
    and "model_loaded m \<longrightarrow> loaded_with h m"
    and "\<not> model_loaded m \<longrightarrow> \<not> loading q \<longrightarrow> holds_lock q \<longrightarrow> model m = None \<and> load_count m = 0"
  shows "pc_ok h m' q'"
  using assms
  by (cases q)
     (auto simp: loads_ok_def loaded_with_def Let_def split: if_splits option.splits sum.splits)

text \<open>A thread that does not hold the lock changes nothing but the lock.\<close>

lemma thread_step_outside:
  "thread_step bk m l q = Some (m', l', q') \<Longrightarrow> \<not> holds_lock q \<Longrightarrow> m' = m"
  by (cases q) (auto split: if_splits)

lemma thread_step_rank:
  "thread_step bk m l q = Some (m', l', q') \<Longrightarrow> pc_ok h m q \<Longrightarrow> rank q' < rank q"
  by (cases q)
     (auto simp: loaded_with_def Let_def split: if_splits option.splits sum.splits)

text \<open>The assertions of the other threads survive the step.\<close>

lemma thread_step_other:
  assumes "thread_step bk m l q = Some (m', l', q')"
    and "pc_ok h m q" and "pc_ok h m p" and "\<not> (holds_lock q \<and> holds_lock p)"
  shows "pc_ok h m' p"
proof (cases "holds_lock q")
  case False
  with assms(1) have "m' = m" by (rule thread_step_outside)
  with assms(3) show ?thesis by simp
next
  case True
  with assms(4) have np: "\<not> holds_lock p" by simp
  show ?thesis
  proof (cases "model_loaded m")
    case True
    with assms(1,2) have "m' = m"
      by (cases q) (auto simp: loaded_with_def Let_def split: if_splits option.splits)
    with assms(3) show ?thesis by simp
  next
    case False
    with np assms(3) have "p = G78_loaded \<or> p = L40_loaded \<or> p = L43_acquire"
      by (cases p) (auto simp: loaded_with_def)
    then show ?thesis by auto
  qed
qed

lemma thread_step_lock:
  assumes "thread_step bk m l q = Some (m', l', q')"
  shows "(holds_lock q \<longrightarrow> l \<longrightarrow> l' = holds_lock q') \<and>
         (\<not> holds_lock q \<longrightarrow> holds_lock q' \<longrightarrow> \<not> l \<and> l') \<and>
         (\<not> holds_lock q \<longrightarrow> \<not> holds_lock q' \<longrightarrow> l' = l)"
  using assms
  by (cases q) (auto simp: Let_def split: if_splits option.splits sum.splits)

lemma thread_step_flag:
  assumes "thread_step bk m l q = Some (m', l', q')"
    and "pc_ok h m q" and "pc_ok h m' q'"
    and "model_loaded m \<longrightarrow> loaded_with h m"
  shows "model_loaded m' \<longrightarrow> loaded_with h m'"
  using assms
  by (cases q) (auto simp: loaded_with_def Let_def split: if_splits option.splits sum.splits)

lemma thread_step_idle:
  assumes "loads_ok bk h" and "thread_step bk m l q = Some (m', l', q')"
    and "pc_ok h m q" and "\<not> loading q'" and "\<not> model_loaded m'"
  shows "\<not> loading q \<and> m' = m"
  using assms
  by (cases q) (auto simp: loads_ok_def Let_def split: if_splits option.splits sum.splits)

lemma loading_holds_lock: "loading q \<Longrightarrow> holds_lock q"
  by (cases q) auto

lemma conc_inv_step:
  assumes ok: "loads_ok bk h" and inv: "conc_inv h sys"
  shows "conc_inv h (step bk sys i)"
proof (cases "i < length (threads sys)")
  case False
  with inv show ?thesis by (simp add: step_def)
next
  case i: True
  define ts where "ts = threads sys"
  define m where "m = mgr sys"
  define l where "l = lock_held sys"
  define q where "q = ts ! i"
  from inv have oks: "\<And>j. j < length ts \<Longrightarrow> pc_ok h m (ts ! j)"
    and mutex: "\<And>j k. j < length ts \<Longrightarrow> k < length ts \<Longrightarrow>
                  holds_lock (ts ! j) \<Longrightarrow> holds_lock (ts ! k) \<Longrightarrow> j = k"
    and lock: "l \<longleftrightarrow> (\<exists>j < length ts. holds_lock (ts ! j))"
    and flag: "model_loaded m \<longrightarrow> loaded_with h m"
    and idle: "\<not> model_loaded m \<Longrightarrow> \<forall>j < length ts. \<not> loading (ts ! j) \<Longrightarrow>
                 model m = None \<and> load_count m = 0"
    by (auto simp: conc_inv_def ts_def m_def l_def)
  from i have i': "i < length ts" by (simp add: ts_def)
  show ?thesis
  proof (cases "thread_step bk m l q")
    case None
    with i inv show ?thesis by (simp add: step_def ts_def m_def l_def q_def)
  next
    case (Some r)
    then obtain m' l' q' where st: "thread_step bk m l q = Some (m', l', q')"
      by (cases r) auto
    with i have sys': "step bk sys i = \<lparr>mgr = m', lock_held = l', threads = ts[i := q']\<rparr>"
      by (simp add: step_def ts_def m_def l_def q_def)
    have okq: "pc_ok h m q" using oks [OF i'] by (simp add: q_def)
    have others: "\<not> holds_lock (ts ! j)" if "holds_lock q" "j < length ts" "j \<noteq> i" for j
      using mutex [OF i' that(2)] that by (auto simp: q_def)
    have alone: "model m = None \<and> load_count m = 0"
      if "\<not> model_loaded m" "\<not> loading q" "holds_lock q"
    proof (rule idle [OF that(1)], intro allI impI)
      fix j assume j: "j < length ts"
      show "\<not> loading (ts ! j)"
      proof (cases "j = i")
        case True
        with that(2) show ?thesis by (simp add: q_def)
      next
        case False
        from others [OF that(3) j False] show ?thesis
          using loading_holds_lock by blast
      qed
    qed
    have okq': "pc_ok h m' q'"
    proof (rule thread_step_own [OF ok st okq])
      show "model_loaded m \<longrightarrow> loaded_with h m" by (rule flag)
      show "\<not> model_loaded m \<longrightarrow> \<not> loading q \<longrightarrow> holds_lock q \<longrightarrow>
              model m = None \<and> load_count m = 0"
        using alone by blast
    qed
    have c1: "pc_ok h m' (ts[i := q'] ! j)" if j: "j < length ts" for j
    proof (cases "j = i")
      case True
      with okq' i' show ?thesis by simp
    next
      case False
      have "\<not> (holds_lock q \<and> holds_lock (ts ! j))"
        using others [OF _ j False] by blast
      from thread_step_other [OF st okq oks [OF j] this] False show ?thesis by simp
    qed
    note lk = thread_step_lock [OF st]
    have lq: "l" if "holds_lock q"
      using lock that i' by (auto simp: q_def)
    have upd: "ts[i := q'] ! j = (if j = i then q' else ts ! j)" if "j < length ts" for j
      using that by (simp add: nth_list_update)
    have c2: "j = k"
      if j: "j < length ts" and k: "k < length ts"
        and hj: "holds_lock (ts[i := q'] ! j)" and hk: "holds_lock (ts[i := q'] ! k)"
      for j k
    proof -
      have only_i: "x = i" if x: "x < length ts" and hx: "holds_lock (ts[i := q'] ! x)"
        and free: "\<And>y. y < length ts \<Longrightarrow> y \<noteq> i \<Longrightarrow> \<not> holds_lock (ts ! y)" for x
      proof (rule ccontr)
        assume "x \<noteq> i"
        with hx upd [OF x] free [OF x] show False by simp
      qed
      show ?thesis
      proof (cases "holds_lock q")
        case True
        from only_i [OF j hj others [OF True]] only_i [OF k hk others [OF True]]
        show ?thesis by simp
      next
        case nq: False
        show ?thesis
        proof (cases "holds_lock q'")
          case True
          with nq lk have "\<not> l" by simp
          with lock have free: "\<And>y. y < length ts \<Longrightarrow> \<not> holds_lock (ts ! y)" by simp
          from only_i [OF j hj free] only_i [OF k hk free] show ?thesis by simp
        next
          case False
          have "holds_lock (ts ! j)" using hj upd [OF j] False by (simp split: if_splits)
          moreover have "holds_lock (ts ! k)" using hk upd [OF k] False by (simp split: if_splits)
          ultimately show ?thesis using mutex [OF j k] by simp
        qed
      qed
    qed
    have c3: "l' \<longleftrightarrow> (\<exists>j < length ts. holds_lock (ts[i := q'] ! j))"
    proof (cases "holds_lock q")
      case True
      with lq lk have l': "l' = holds_lock q'" by simp
      show ?thesis
      proof
        assume l'
        with l' i' show "\<exists>j < length ts. holds_lock (ts[i := q'] ! j)"
          by (intro exI [of _ i]) simp
      next
        assume "\<exists>j < length ts. holds_lock (ts[i := q'] ! j)"
        then obtain j where "j < length ts" "holds_lock (ts[i := q'] ! j)" by blast
        with others [OF True] l' show l'
          by (cases "j = i") (auto simp: nth_list_update)
      qed
    next
      case nq: False
      show ?thesis
      proof (cases "holds_lock q'")
        case True
        with nq lk have "l'" by simp
        with True i' show ?thesis by (auto intro!: exI [of _ i])
      next
        case False
        with nq lk have "l' = l" by simp
        moreover have "(\<exists>j < length ts. holds_lock (ts[i := q'] ! j)) \<longleftrightarrow>
                       (\<exists>j < length ts. holds_lock (ts ! j))"
        proof -
          have "holds_lock (ts[i := q'] ! j) = holds_lock (ts ! j)" if "j < length ts" for j
            using that nq False by (cases "j = i") (simp_all add: q_def)
          then show ?thesis by auto
        qed
        ultimately show ?thesis using lock by simp
      qed
    qed
    have c4: "model_loaded m' \<longrightarrow> loaded_with h m'"
      using st okq okq' flag by (rule thread_step_flag)
    have c5: "model m' = None \<and> load_count m' = 0"
      if nl: "\<not> model_loaded m'" and none: "\<forall>j < length ts. \<not> loading (ts[i := q'] ! j)"
    proof -
      from none i' have "\<not> loading q'" by (auto dest: spec [of _ i])
      from thread_step_idle [OF ok st okq this nl] have nq: "\<not> loading q" and same: "m' = m"
        by simp_all
      have "\<not> loading (ts ! j)" if "j < length ts" for j
        using none that nq by (cases "j = i") (auto simp: q_def)
      with idle nl same show ?thesis by simp
    qed
    show ?thesis
      unfolding sys' conc_inv_def using c1 c2 c3 c4 c5 by simp
  qed
qed

lemma conc_inv_start: "conc_inv h (start n)"
  by (simp add: conc_inv_def start_def ai_model_manager_def init_def class_attributes_def
        load_count_def loaded_with_def)

lemma conc_inv_exec:
  "loads_ok bk h \<Longrightarrow> conc_inv h sys \<Longrightarrow> conc_inv h (exec bk sched sys)"
  unfolding exec_def
  by (induction sched arbitrary: sys) (simp_all add: conc_inv_step)

lemma length_threads_step [simp]: "length (threads (step bk sys i)) = length (threads sys)"
  by (simp add: step_def split: option.splits)

lemma length_threads_exec [simp]: "length (threads (exec bk sched sys)) = length (threads sys)"
  unfolding exec_def by (induction sched arbitrary: sys) simp_all

lemma sum_list_rank_update:
  assumes "k < length ts" and "rank q' < rank (ts ! k)"
  shows "sum_list (map rank (ts[k := q'])) < sum_list (map rank ts)"
proof -
  have "sum_list ((map rank ts)[k := rank q']) = sum_list (map rank ts) + rank q' - map rank ts ! k"
    using assms(1) by (simp add: sum_list_update)
  moreover have "map rank ts ! k \<le> sum_list (map rank ts)"
    using assms(1) by (intro member_le_sum_list) simp_all
  ultimately show ?thesis using assms by (simp add: map_update)
qed

lemma step_moves:
  assumes "conc_inv h sys" and "k < length (threads sys)"
    and "thread_step bk (mgr sys) (lock_held sys) (threads sys ! k) = Some r"
  shows "steps_left (step bk sys k) < steps_left sys"
proof -
  obtain m' l' q' where r: "r = (m', l', q')" by (cases r)
  from assms(1,2) have "pc_ok h (mgr sys) (threads sys ! k)" by (simp add: conc_inv_def)
  with assms(3) r have "rank q' < rank (threads sys ! k)" by (auto dest: thread_step_rank)
  with assms r show ?thesis
    by (simp add: step_def steps_left_def sum_list_rank_update)
qed

lemma steps_left_step:
  assumes "conc_inv h sys"
  shows "steps_left (step bk sys i) \<le> steps_left sys"
proof (cases "i < length (threads sys)")
  case False
  then show ?thesis by (simp add: step_def)
next
  case True
  show ?thesis
  proof (cases "thread_step bk (mgr sys) (lock_held sys) (threads sys ! i)")
    case None
    with True show ?thesis by (simp add: step_def)
  next
    case (Some r)
    from step_moves [OF assms True Some] show ?thesis by simp
  qed
qed

lemma steps_left_exec:
  assumes "loads_ok bk h"
  shows "conc_inv h sys \<Longrightarrow> steps_left (exec bk sched sys) \<le> steps_left sys"
  unfolding exec_def
proof (induction sched arbitrary: sys)
  case Nil
  show ?case by simp
next
  case (Cons i sched)
  have a: "steps_left (step bk sys i) \<le> steps_left sys"
    using Cons.prems by (rule steps_left_step)
  have b: "conc_inv h (step bk sys i)"
    using assms Cons.prems by (rule conc_inv_step)
  from Cons.IH [OF b] a show ?case by simp
qed

lemma holder_moves: "holds_lock q \<Longrightarrow> thread_step bk m l q \<noteq> None"
  by (cases q) (auto simp: Let_def split: option.splits)

lemma waits_only_for_lock:
  "thread_step bk m l q = None \<Longrightarrow> is_done q \<or> (q = L43_acquire \<and> l)"
  by (cases q) (auto simp: Let_def split: option.splits if_splits)

text \<open>While a caller has not returned, some thread can move.\<close>

lemma some_thread_moves:
  assumes "conc_inv h sys" and "\<not> all_done sys"
  shows "\<exists>i < length (threads sys). steps_left (step bk sys i) < steps_left sys"
proof -
  from assms(2) obtain k where k: "k < length (threads sys)" and nd: "\<not> is_done (threads sys ! k)"
    by (auto simp: all_done_def list_all_length)
  show ?thesis
  proof (cases "thread_step bk (mgr sys) (lock_held sys) (threads sys ! k)")
    case (Some r)
    with k step_moves [OF assms(1)] show ?thesis by blast
  next
    case None
    with nd have "lock_held sys" by (auto dest: waits_only_for_lock)
    with assms(1) obtain j where j: "j < length (threads sys)" and "holds_lock (threads sys ! j)"
      by (auto simp: conc_inv_def)
    then obtain r where "thread_step bk (mgr sys) (lock_held sys) (threads sys ! j) = Some r"
      using holder_moves by blast
    with j step_moves [OF assms(1)] show ?thesis by blast
  qed
qed

lemma completes:
  assumes "loads_ok bk h"
  shows "conc_inv h sys \<Longrightarrow> steps_left sys \<le> b \<Longrightarrow>
         \<exists>rest. length rest \<le> b \<and> all_done (exec bk rest sys)"
proof (induction b arbitrary: sys)
  case 0
  have "all_done sys"
  proof (rule ccontr)
    assume "\<not> all_done sys"
    from some_thread_moves [OF "0.prems"(1) this, of bk] "0.prems"(2) show False by simp
  qed
  then show ?case by (intro exI [of _ "[]"]) (simp add: exec_def)
next
  case (Suc b)
  show ?case
  proof (cases "all_done sys")
    case True
    then show ?thesis by (intro exI [of _ "[]"]) (simp add: exec_def)
  next
    case False
    from some_thread_moves [OF Suc.prems(1) False, of bk]
    obtain i where "steps_left (step bk sys i) < steps_left sys" by blast
    with Suc.prems(2) have "steps_left (step bk sys i) \<le> b" by simp
    from Suc.IH [OF conc_inv_step [OF assms Suc.prems(1)] this]
    obtain rest where "length rest \<le> b" "all_done (exec bk rest (step bk sys i))" by blast
    then show ?thesis by (intro exI [of _ "i # rest"]) (simp add: exec_def)
  qed
qed

lemma steps_left_start: "steps_left (start n) = 14 * n"
  by (simp add: steps_left_def start_def sum_list_replicate)

text \<open>
  C5. \<open>n\<close> threads call \<^verbatim>\<open>get_model\<close> on the fresh manager, with a backend whose
  loader succeeds and yields the handle \<open>h\<close>. After any schedule, the load was executed at
  most once, and every caller that has returned holds \<open>h\<close>, the stored handle, after
  exactly one load. When all callers have returned, exactly one load was executed and
  all hold \<open>h\<close>. From any point the callers can all return within \<open>14 n\<close> further steps:
  no schedule leaves a caller waiting for ever.
\<close>

theorem concurrent_get_model_loads_once:
  assumes "loads_ok bk h"
  shows "load_count (mgr (exec bk sched (start n))) \<le> 1 \<and>
         (\<forall>i < n. \<forall>r. threads (exec bk sched (start n)) ! i = Done r \<longrightarrow>
            r = Inr (Some h) \<and> load_count (mgr (exec bk sched (start n))) = 1 \<and>
            model (mgr (exec bk sched (start n))) = Some h) \<and>
         (all_done (exec bk sched (start n)) \<longrightarrow> 0 < n \<longrightarrow>
            load_count (mgr (exec bk sched (start n))) = 1 \<and>
            threads (exec bk sched (start n)) = replicate n (Done (Inr (Some h)))) \<and>
         (\<exists>rest. length rest \<le> 14 * n \<and> all_done (exec bk (sched @ rest) (start n)))"
proof -
  define sys where "sys = exec bk sched (start n)"
  have inv: "conc_inv h sys"
    unfolding sys_def using assms conc_inv_start by (rule conc_inv_exec)
  have len: "length (threads sys) = n" by (simp add: sys_def start_def)
  have "load_count (mgr sys) \<le> 1"
  proof (cases "model_loaded (mgr sys)")
    case True
    with inv show ?thesis by (simp add: conc_inv_def loaded_with_def)
  next
    case False
    show ?thesis
    proof (cases "\<exists>i < n. loading (threads sys ! i)")
      case True
      then obtain i where "i < n" "loading (threads sys ! i)" by blast
      moreover from inv \<open>i < n\<close> len have "pc_ok h (mgr sys) (threads sys ! i)"
        by (simp add: conc_inv_def)
      ultimately show ?thesis by (cases "threads sys ! i") auto
    next
      case no: False
      with inv False len show ?thesis by (simp add: conc_inv_def)
    qed
  qed
  moreover have "r = Inr (Some h) \<and> load_count (mgr sys) = 1 \<and> model (mgr sys) = Some h"
    if "i < n" "threads sys ! i = Done r" for i r
  proof -
    from inv that(1) len have "pc_ok h (mgr sys) (threads sys ! i)" by (simp add: conc_inv_def)
    with that(2) show ?thesis by (simp add: loaded_with_def)
  qed
  moreover have "load_count (mgr sys) = 1 \<and> threads sys = replicate n (Done (Inr (Some h)))"
    if ad: "all_done sys" and n: "0 < n"
  proof -
    have each: "threads sys ! i = Done (Inr (Some h)) \<and> load_count (mgr sys) = 1" if i: "i < n" for i
    proof -
      from ad i len have "is_done (threads sys ! i)" by (simp add: all_done_def list_all_length)
      then obtain r where r: "threads sys ! i = Done r" by (cases "threads sys ! i") auto
      from inv i len have "pc_ok h (mgr sys) (threads sys ! i)" by (simp add: conc_inv_def)
      with r show ?thesis by (simp add: loaded_with_def)
    qed
    from each [OF n] have "load_count (mgr sys) = 1" by simp
    moreover have "threads sys = replicate n (Done (Inr (Some h)))"
      using each len by (intro nth_equalityI) simp_all
    ultimately show ?thesis by simp
  qed
  moreover have "\<exists>rest. length rest \<le> 14 * n \<and> all_done (exec bk (sched @ rest) (start n))"
  proof -
    have "steps_left sys \<le> 14 * n"
      using steps_left_exec [OF assms conc_inv_start, of sched n]
      by (simp add: sys_def steps_left_start)
    from completes [OF assms inv this] show ?thesis by (simp add: exec_append sys_def)
  qed
  ultimately show ?thesis unfolding sys_def by blast
qed

text \<open>Two callers, interleaved step by step until both wait for or hold the lock.\<close>

lemmas conc_eval_defs =
  exec_def step_def start_def ai_model_manager_def init_def class_attributes_def
  record_event_def good_backend_def default_settings_def Let_def

lemma exec_good_two:
  "exec good_backend [0, 1, 0, 1, 0, 1, 0, 1, 0, 1, 0, 0, 0, 0, 0, 0, 0, 1, 1, 1, 1, 1] (start 2) =
     \<lparr>mgr = \<lparr>model = Some 1, model_loaded = True,
              executor = Some \<lparr>max_workers = 2, thread_name_prefix = ''ai_model'',
                               shut_down = False\<rparr>,
              initialized = True,
              events = [Import_settings (Inr default_settings), Makedirs ''./models'' None,
                        Construct ''all-MiniLM-L6-v2'' ''./models'' (Inr 1), Eval 1 None]\<rparr>,
      lock_held = False,
      threads = [Done (Inr (Some 1)), Done (Inr (Some 1))]\<rparr>"
  by (simp add: conc_eval_defs numeral_2_eq_2)

theorem concurrent_get_model_loads_once_witness:
  "loads_ok good_backend 1 \<and>
   all_done (exec good_backend
     [0, 1, 0, 1, 0, 1, 0, 1, 0, 1, 0, 0, 0, 0, 0, 0, 0, 1, 1, 1, 1, 1] (start 2)) \<and>
   load_count (mgr (exec good_backend
     [0, 1, 0, 1, 0, 1, 0, 1, 0, 1, 0, 0, 0, 0, 0, 0, 0, 1, 1, 1, 1, 1] (start 2))) = 1 \<and>
   threads (exec good_backend
     [0, 1, 0, 1, 0, 1, 0, 1, 0, 1, 0, 0, 0, 0, 0, 0, 0, 1, 1, 1, 1, 1] (start 2)) =
     [Done (Inr (Some 1)), Done (Inr (Some 1))]"
proof -
  have ok: "loads_ok good_backend 1"
    by (simp add: loads_ok_def good_backend_def)
  note once = concurrent_get_model_loads_once [OF ok,
      of "[0, 1, 0, 1, 0, 1, 0, 1, 0, 1, 0, 0, 0, 0, 0, 0, 0, 1, 1, 1, 1, 1]" 2,
      unfolded exec_good_two]
  show ?thesis
    unfolding exec_good_two using ok once
    by (simp add: all_done_def load_count_def numeral_2_eq_2)
qed

end
